theory Spec2Isabelle
  imports Main "HOL-Library.Word"
begin

unbundle bit_operations_syntax

section \<open>The rate-limit edge function of can-render-studio\<close>

text \<open>
  The development embeds the server-side quota enforcer (the \<^verbatim>\<open>rate-limit\<close> edge
  function): identity derivation, request validation, the \<^verbatim>\<open>check\<close> and
  \<^verbatim>\<open>record\<close> branches and the three tables they read and write.

  Conventions of the embedding.
  \<^item> A JavaScript string is a \<^typ>\<open>string\<close>; one \<^typ>\<open>char\<close> stands for one UTF-16 code
    unit, so \<open>length\<close> is \<^verbatim>\<open>.length\<close>. Header values are byte strings, which is exactly
    what \<^typ>\<open>char\<close> holds; for the body's fingerprint the code units from 256 on are not
    represented (the sanitizer removes every one of them).
  \<^item> \<^verbatim>\<open>undefined\<close> and \<^verbatim>\<open>null\<close> are \<open>None\<close>.
  \<^item> A thrown exception is the \<open>Inl\<close> of a sum.
  \<^item> A table is the list of its rows; the surrogate \<^verbatim>\<open>id\<close> and the timestamp columns,
    which the function never reads, are left out.
\<close>

subsection \<open>Constants\<close>

definition ANONYMOUS_DAILY_LIMIT :: int where
  "ANONYMOUS_DAILY_LIMIT = 5"

definition AUTHENTICATED_DAILY_LIMIT :: int where
  "AUTHENTICATED_DAILY_LIMIT = 10"

definition MAX_FINGERPRINT_LENGTH :: nat where
  "MAX_FINGERPRINT_LENGTH = 500"

subsection \<open>Platform functions: UTF-8 encoding, SHA-256, hexadecimal encoding\<close>

type_synonym byte = "8 word"
type_synonym w32 = "32 word"

text \<open>\<^verbatim>\<open>new TextEncoder().encode\<close>: the UTF-8 bytes of a string of code units below 256.\<close>

definition utf8_of_char :: "char \<Rightarrow> byte list" where
  "utf8_of_char c =
     (let n = (of_char c :: nat) in
      if n < 128 then [of_nat n]
      else [of_nat (192 + n div 64), of_nat (128 + n mod 64)])"

definition TextEncoder_encode :: "string \<Rightarrow> byte list" where
  "TextEncoder_encode s = concat (map utf8_of_char s)"

text \<open>\<^verbatim>\<open>crypto.subtle.digest("SHA-256", _)\<close>, after FIPS 180-4.\<close>

text \<open>
  The constants are not tabulated but computed as the standard defines them: the round
  constants are the first 32 bits of the fractional parts of the cube roots of the first
  64 primes, the initial hash value those of the square roots of the first 8. The floor
  of a root is found by Newton's iteration on the integers, from a start above the root.
\<close>

definition first_primes :: "nat list" where
  "first_primes =
    [2, 3, 5, 7, 11, 13, 17, 19, 23, 29, 31, 37, 41, 43, 47, 53, 59, 61, 67, 71, 73, 79, 83, 89,
     97, 101, 103, 107, 109, 113, 127, 131, 137, 139, 149, 151, 157, 163, 167, 173, 179, 181,
     191, 193, 197, 199, 211, 223, 227, 229, 233, 239, 241, 251, 257, 263, 269, 271, 277, 281,
     283, 293, 307, 311]"

fun newton :: "nat \<Rightarrow> nat \<Rightarrow> int \<Rightarrow> int \<Rightarrow> int" where
  "newton 0 k n x = x"
| "newton (Suc fuel) k n x =
     (let y = ((int k - 1) * x + n div x ^ (k - 1)) div int k
      in if y < x then newton fuel k n y else x)"

definition root_floor :: "nat \<Rightarrow> int \<Rightarrow> int" where
  "root_floor k n = newton 64 k n (2 ^ 36)"

definition frac_bits :: "nat \<Rightarrow> nat \<Rightarrow> w32" where
  "frac_bits k p = word_of_int (root_floor k (int p * 2 ^ (32 * k)))"

definition sha256_K :: "w32 list" where
  "sha256_K = map (frac_bits 3) first_primes"

definition sha256_H0 :: "w32 list" where
  "sha256_H0 = map (frac_bits 2) (take 8 first_primes)"

definition Ch :: "w32 \<Rightarrow> w32 \<Rightarrow> w32 \<Rightarrow> w32" where
  "Ch x y z = (x AND y) XOR (NOT x AND z)"

definition Maj :: "w32 \<Rightarrow> w32 \<Rightarrow> w32 \<Rightarrow> w32" where
  "Maj x y z = (x AND y) XOR (x AND z) XOR (y AND z)"

definition Sigma0 :: "w32 \<Rightarrow> w32" where
  "Sigma0 x = word_rotr 2 x XOR word_rotr 13 x XOR word_rotr 22 x"

definition Sigma1 :: "w32 \<Rightarrow> w32" where
  "Sigma1 x = word_rotr 6 x XOR word_rotr 11 x XOR word_rotr 25 x"

definition sigma0 :: "w32 \<Rightarrow> w32" where
  "sigma0 x = word_rotr 7 x XOR word_rotr 18 x XOR drop_bit 3 x"

definition sigma1 :: "w32 \<Rightarrow> w32" where
  "sigma1 x = word_rotr 17 x XOR word_rotr 19 x XOR drop_bit 10 x"

text \<open>Padding: the byte 0x80, zero bytes up to 56 modulo 64, the bit length on 8 bytes.\<close>

definition be_bytes :: "nat \<Rightarrow> 'a::len word \<Rightarrow> byte list" where
  "be_bytes k w = map (\<lambda>i. ucast (drop_bit (8 * (k - 1 - i)) w)) [0..<k]"

definition sha256_pad :: "byte list \<Rightarrow> byte list" where
  "sha256_pad m =
     m @ [0x80] @ replicate ((119 - length m mod 64) mod 64) 0 @ be_bytes 8 (of_nat (8 * length m) :: 64 word)"

fun be_words :: "byte list \<Rightarrow> w32 list" where
  "be_words (a # b # c # d # bs) =
     (push_bit 24 (ucast a) OR push_bit 16 (ucast b) OR push_bit 8 (ucast c) OR ucast d) # be_words bs"
| "be_words _ = []"

fun sha256_schedule :: "nat \<Rightarrow> w32 list \<Rightarrow> w32 list" where
  "sha256_schedule 0 w = w"
| "sha256_schedule (Suc n) w =
     (let t = length w in
      sha256_schedule n
        (w @ [sigma1 (w ! (t - 2)) + w ! (t - 7) + sigma0 (w ! (t - 15)) + w ! (t - 16)]))"

fun sha256_round :: "w32 \<times> w32 \<Rightarrow> w32 list \<Rightarrow> w32 list" where
  "sha256_round (k, w) [a, b, c, d, e, f, g, h] =
     (let t1 = h + Sigma1 e + Ch e f g + k + w;
          t2 = Sigma0 a + Maj a b c
      in [t1 + t2, a, b, c, d + t1, e, f, g])"
| "sha256_round _ s = s"

definition sha256_block :: "w32 list \<Rightarrow> byte list \<Rightarrow> w32 list" where
  "sha256_block hs blk =
     map2 (+) hs (fold sha256_round (zip sha256_K (sha256_schedule 48 (be_words blk))) hs)"

fun sha256_blocks :: "nat \<Rightarrow> w32 list \<Rightarrow> byte list \<Rightarrow> w32 list" where
  "sha256_blocks 0 hs bs = hs"
| "sha256_blocks (Suc n) hs bs = sha256_blocks n (sha256_block hs (take 64 bs)) (drop 64 bs)"

definition sha256 :: "byte list \<Rightarrow> byte list" where
  "sha256 m =
     (let p = sha256_pad m in
      concat (map (\<lambda>w. be_bytes 4 w) (sha256_blocks (length p div 64) sha256_H0 p)))"

text \<open>\<^verbatim>\<open>encodeHex\<close> of the Deno standard library: two lowercase digits for each byte.\<close>

definition hex_digit :: "nat \<Rightarrow> char" where
  "hex_digit n = ''0123456789abcdef'' ! (n mod 16)"

definition encodeHex :: "byte list \<Rightarrow> string" where
  "encodeHex bs = concat (map (\<lambda>b. [hex_digit (unat b div 16), hex_digit (unat b mod 16)]) bs)"

subsection \<open>Security helper functions\<close>

datatype error =
    Invalid_fingerprint    \<comment> \<open>\<^verbatim>\<open>new Error('Invalid fingerprint')\<close>\<close>
  | Body_not_json          \<comment> \<open>\<^verbatim>\<open>req.json()\<close> rejects\<close>

text \<open>The character class \<^verbatim>\<open>[a-zA-Z0-9]\<close>, by code unit.\<close>

definition is_alnum :: "char \<Rightarrow> bool" where
  "is_alnum c =
     (let n = (of_char c :: nat) in
      (97 \<le> n \<and> n \<le> 122) \<or> (65 \<le> n \<and> n \<le> 90) \<or> (48 \<le> n \<and> n \<le> 57))"

text \<open>\<^verbatim>\<open>!fingerprint\<close>: a string is falsy when it is absent or empty.\<close>

definition falsy :: "string option \<Rightarrow> bool" where
  "falsy v = (case v of None \<Rightarrow> True | Some s \<Rightarrow> s = [])"

definition sanitizeFingerprint :: "string option \<Rightarrow> error + string" where
  "sanitizeFingerprint fingerprint =
     (case fingerprint of
        None \<Rightarrow> Inl Invalid_fingerprint
      | Some f \<Rightarrow>
          if f = [] \<or> length f > MAX_FINGERPRINT_LENGTH then Inl Invalid_fingerprint
          else Inr (take MAX_FINGERPRINT_LENGTH (filter is_alnum f)))"

definition combined :: "string \<Rightarrow> string \<Rightarrow> string" where
  "combined ip sanitizedFingerprint = ip @ '':'' @ sanitizedFingerprint"

definition createSecureAnonymousId :: "string \<Rightarrow> string option \<Rightarrow> error + string" where
  "createSecureAnonymousId ip fingerprint =
     (case sanitizeFingerprint fingerprint of
        Inl e \<Rightarrow> Inl e
      | Inr sanitizedFingerprint \<Rightarrow>
          Inr (encodeHex (sha256 (TextEncoder_encode (combined ip sanitizedFingerprint)))))"

subsection \<open>The quota store\<close>

text \<open>
  The three tables of the schema. \<^verbatim>\<open>user_usage\<close> has \<^verbatim>\<open>UNIQUE(user_id, date)\<close> and
  \<^verbatim>\<open>anonymous_usage\<close> has \<^verbatim>\<open>UNIQUE(anonymous_id, date)\<close>. The column
  \<^verbatim>\<open>anonymous_usage.fingerprint\<close> is the field \<open>fingerprint_col\<close>, and the columns of
  \<^verbatim>\<open>generation_logs\<close> carry the prefix \<open>log_\<close>, since the request has fields of the
  same names.
\<close>

record usage_row =
  date :: string
  generations_used :: int

record user_usage_row = usage_row +
  user_id :: string

record anonymous_usage_row = usage_row +
  anonymous_id :: string
  ip_address :: string
  fingerprint_col :: string

record generation_log =
  log_user_id :: "string option"
  log_anonymous_id :: "string option"
  log_ip_address :: string
  log_fingerprint :: string
  log_success :: bool
  log_error_message :: "string option"
  log_limit_type :: string
  generations_before :: int
  generations_after :: int

record db =
  user_usage :: "user_usage_row list"
  anonymous_usage :: "anonymous_usage_row list"
  generation_logs :: "generation_log list"

definition empty_db :: db where
  "empty_db = \<lparr>user_usage = [], anonymous_usage = [], generation_logs = []\<rparr>"

text \<open>The calls a request makes on the store, in order.\<close>

datatype db_op =
    Select_user_usage
  | Select_anonymous_usage
  | Upsert_user_usage
  | Upsert_anonymous_usage
  | Insert_generation_logs

text \<open>\<^verbatim>\<open>.single()\<close>: the row when the query matches exactly one, no data otherwise.\<close>

definition single :: "'a list \<Rightarrow> 'a option" where
  "single rows = (case rows of [r] \<Rightarrow> Some r | _ \<Rightarrow> None)"

text \<open>\<^verbatim>\<open>data?.generations_used || 0\<close>\<close>

definition used_or_0 :: "'a usage_row_scheme option \<Rightarrow> int" where
  "used_or_0 data = (case data of None \<Rightarrow> 0 | Some r \<Rightarrow> (if generations_used r = 0 then 0 else generations_used r))"

text \<open>\<^verbatim>\<open>rows.reduce((sum, record) => sum + record.generations_used, 0)\<close>\<close>

definition reduce_used :: "'a usage_row_scheme list \<Rightarrow> int" where
  "reduce_used rows = foldl (\<lambda>sum record. sum + generations_used record) 0 rows"

text \<open>
  \<^verbatim>\<open>.upsert(row, { onConflict: 'user_id,date' })\<close>: a row with the key of the new one takes
  the new row's columns; without such a row the new one is inserted.
\<close>

definition upsert_user_usage :: "user_usage_row \<Rightarrow> user_usage_row list \<Rightarrow> user_usage_row list" where
  "upsert_user_usage new rows =
     (if list_ex (\<lambda>r. user_id r = user_id new \<and> date r = date new) rows
      then map (\<lambda>r. if user_id r = user_id new \<and> date r = date new then new else r) rows
      else rows @ [new])"

definition upsert_anonymous_usage ::
  "anonymous_usage_row \<Rightarrow> anonymous_usage_row list \<Rightarrow> anonymous_usage_row list" where
  "upsert_anonymous_usage new rows =
     (if list_ex (\<lambda>r. anonymous_id r = anonymous_id new \<and> date r = date new) rows
      then map (\<lambda>r. if anonymous_id r = anonymous_id new \<and> date r = date new then new else r) rows
      else rows @ [new])"

subsection \<open>Requests and responses\<close>

record RateLimitRequest =
  action :: "string option"
  fingerprint :: "string option"
  success :: "bool option"
  errorMessage :: "string option"

text \<open>
  The request: its method (the field \<open>http_method\<close>), the headers the function reads, and the parsed body (\<open>None\<close>
  when \<^verbatim>\<open>req.json()\<close> rejects or the body cannot be destructured).
\<close>

record request =
  http_method :: string
  x_forwarded_for :: "string option"
  x_real_ip :: "string option"
  cf_connecting_ip :: "string option"
  Authorization :: "string option"
  json :: "RateLimitRequest option"

text \<open>
  What a request finds outside the store: the auth provider (\<open>getUser token\<close> is the id of
  the user the token belongs to, \<open>None\<close> when the provider reports an error, no user, or
  throws), the server's date \<^verbatim>\<open>new Date().toISOString().split('T')[0]\<close> and the next
  local midnight.
\<close>

record env =
  getUser :: "string \<Rightarrow> string option"
  today :: string
  midnight :: string

record RateLimitResponse =
  canGenerate :: bool
  generationsUsed :: int
  generationsRemaining :: int
  resetTime :: string
  isAuthenticated :: bool
  limitType :: string

datatype body =
    Text string
  | Error_body string
  | Check_body RateLimitResponse
  | Limit_body string bool int int
      \<comment> \<open>\<^verbatim>\<open>error\<close>, \<^verbatim>\<open>canGenerate\<close>, \<^verbatim>\<open>generationsUsed\<close>, \<^verbatim>\<open>generationsRemaining\<close>\<close>
  | Record_body bool int int
      \<comment> \<open>\<^verbatim>\<open>success\<close>, \<^verbatim>\<open>generationsUsed\<close>, \<^verbatim>\<open>generationsRemaining\<close>\<close>

record response =
  status :: nat
  body :: body

subsection \<open>Request validation and identity\<close>

text \<open>JavaScript's \<^verbatim>\<open>a || b\<close> on optional strings, \<^verbatim>\<open>trim\<close> and \<^verbatim>\<open>split(',')[0]\<close>.\<close>

definition or_else :: "string option \<Rightarrow> string option \<Rightarrow> string option" where
  "or_else a b = (if falsy a then b else a)"

definition is_space :: "char \<Rightarrow> bool" where
  "is_space c = ((of_char c :: nat) \<in> {9, 10, 11, 12, 13, 32, 160})"

definition trim :: "string \<Rightarrow> string" where
  "trim s = rev (dropWhile is_space (rev (dropWhile is_space s)))"

definition first_of_split :: "string \<Rightarrow> string" where
  "first_of_split s = takeWhile (\<lambda>c. c \<noteq> CHR '','') s"

definition validateRequest :: "request \<Rightarrow> string \<times> bool" where
  "validateRequest req =
     (let clientIP =
            (case or_else (or_else (or_else
                    (map_option (\<lambda>v. trim (first_of_split v)) (x_forwarded_for req))
                    (x_real_ip req))
                    (cf_connecting_ip req))
                    (Some ''unknown'') of
               Some ip \<Rightarrow> ip | None \<Rightarrow> ''unknown'');
          isValid = (clientIP \<noteq> ''unknown'' \<and> length clientIP > 0)
      in (clientIP, isValid))"

text \<open>
  The bearer credential: \<^verbatim>\<open>user\<close> is set, and \<^verbatim>\<open>isAuthenticated\<close> with it, when the
  header starts with \<^verbatim>\<open>'Bearer '\<close> and the provider knows the token.
\<close>

definition authenticate :: "env \<Rightarrow> request \<Rightarrow> string option" where
  "authenticate e req =
     (case Authorization req of
        None \<Rightarrow> None
      | Some authHeader \<Rightarrow>
          if authHeader \<noteq> [] \<and> take 7 authHeader = ''Bearer '' then getUser e (drop 7 authHeader)
          else None)"

text \<open>
  What the handler holds when it reaches the branch on \<^verbatim>\<open>action\<close>: the client's address,
  the authenticated user if any, the anonymous id, the sanitized fingerprint and the body.
\<close>

record ctx =
  clientIP :: string
  user :: "string option"
  anonymousId :: string
  sanitized :: string
  req :: RateLimitRequest

definition maxGenerations :: "ctx \<Rightarrow> int" where
  "maxGenerations c = (if user c \<noteq> None then AUTHENTICATED_DAILY_LIMIT else ANONYMOUS_DAILY_LIMIT)"

definition bad_request :: "string \<Rightarrow> response" where
  "bad_request msg = \<lparr>status = 400, body = Error_body msg\<rparr>"

definition internal_error :: response where
  "internal_error = \<lparr>status = 500, body = Error_body ''Internal server error''\<rparr>"

text \<open>
  The handler up to the anonymous id. It makes no call on the store. An exception
  (\<open>Inl\<close>) is caught by the handler's \<^verbatim>\<open>catch\<close>, which answers 500.
\<close>

definition resolve :: "env \<Rightarrow> request \<Rightarrow> response + ctx" where
  "resolve e rq =
     (let (ip, isValid) = validateRequest rq in
      if \<not> isValid then Inl (bad_request ''Invalid request'')
      else
        let u = authenticate e rq in
        (case json rq of
           None \<Rightarrow> Inl internal_error
         | Some b \<Rightarrow>
             if falsy (fingerprint b) then Inl (bad_request ''Fingerprint required'')
             else
               (case createSecureAnonymousId ip (fingerprint b) of
                  Inl err \<Rightarrow> Inl internal_error
                | Inr aid \<Rightarrow>
                    (case sanitizeFingerprint (fingerprint b) of
                       Inl err \<Rightarrow> Inl internal_error
                     | Inr s \<Rightarrow>
                         Inr \<lparr>clientIP = ip, user = u, anonymousId = aid, sanitized = s, req = b\<rparr>))))"

subsection \<open>The check branch\<close>

definition select_user_usage :: "string \<Rightarrow> string \<Rightarrow> db \<Rightarrow> user_usage_row list" where
  "select_user_usage uid day d = filter (\<lambda>r. user_id r = uid \<and> date r = day) (user_usage d)"

definition select_anonymous_usage :: "string \<Rightarrow> string \<Rightarrow> db \<Rightarrow> anonymous_usage_row list" where
  "select_anonymous_usage aid day d =
     filter (\<lambda>r. anonymous_id r = aid \<and> date r = day) (anonymous_usage d)"

text \<open>\<^verbatim>\<open>generationsUsed\<close> of the check branch.\<close>

definition check_usage :: "env \<Rightarrow> ctx \<Rightarrow> db \<Rightarrow> int" where
  "check_usage e c d =
     (case user c of
        Some uid \<Rightarrow> used_or_0 (single (select_user_usage uid (today e) d))
      | None \<Rightarrow>
          (let generationsUsed = used_or_0 (single (select_anonymous_usage (anonymousId c) (today e) d));
               ipUsage = filter (\<lambda>r. ip_address r = clientIP c \<and> date r = today e
                                      \<and> anonymous_id r \<noteq> anonymousId c) (anonymous_usage d);
               additionalAnonymousUsage = (if length ipUsage > 0 then reduce_used ipUsage else 0)
           in max generationsUsed additionalAnonymousUsage))"

definition read_ops :: "ctx \<Rightarrow> db_op list" where
  "read_ops c =
     (if user c \<noteq> None then [Select_user_usage] else [Select_anonymous_usage, Select_anonymous_usage])"

definition limit_name :: "ctx \<Rightarrow> string" where
  "limit_name c = (if user c \<noteq> None then ''authenticated'' else ''anonymous'')"

definition check_branch :: "env \<Rightarrow> ctx \<Rightarrow> db \<Rightarrow> response \<times> db \<times> db_op list" where
  "check_branch e c d =
     (let generationsUsed = check_usage e c d;
          canGenerate = (generationsUsed < maxGenerations c);
          remaining = max 0 (maxGenerations c - generationsUsed)
      in (\<lparr>status = 200,
           body = Check_body \<lparr>canGenerate = canGenerate, generationsUsed = generationsUsed,
                    generationsRemaining = remaining, resetTime = midnight e,
                    isAuthenticated = (user c \<noteq> None), limitType = limit_name c\<rparr>\<rparr>,
          d, read_ops c))"

subsection \<open>The record branch\<close>

text \<open>\<^verbatim>\<open>currentUsage\<close> of the record branch: the reads before the limit is enforced.\<close>

definition record_usage :: "env \<Rightarrow> ctx \<Rightarrow> db \<Rightarrow> int" where
  "record_usage e c d =
     (case user c of
        Some uid \<Rightarrow> used_or_0 (single (select_user_usage uid (today e) d))
      | None \<Rightarrow>
          (let anonymousData = single (select_anonymous_usage (anonymousId c) (today e) d);
               ipUsage = filter (\<lambda>r. ip_address r = clientIP c \<and> date r = today e) (anonymous_usage d);
               anonymousUsage = used_or_0 anonymousData;
               totalIpUsage = reduce_used ipUsage
           in max anonymousUsage totalIpUsage))"

text \<open>
  The rest of the record branch, from the value of \<^verbatim>\<open>currentUsage\<close> on: the limit, the
  upsert of \<^verbatim>\<open>currentUsage + 1\<close> and the audit log.
\<close>

definition record_write :: "env \<Rightarrow> ctx \<Rightarrow> int \<Rightarrow> db \<Rightarrow> response \<times> db \<times> db_op list" where
  "record_write e c currentUsage d =
     (if currentUsage \<ge> maxGenerations c then
        (\<lparr>status = 429, body = Limit_body ''Generation limit exceeded'' False currentUsage 0\<rparr>, d, [])
      else
        let d1 = (case user c of
                    Some uid \<Rightarrow>
                      d\<lparr>user_usage := upsert_user_usage
                          \<lparr>date = today e, generations_used = currentUsage + 1, user_id = uid\<rparr>
                          (user_usage d)\<rparr>
                  | None \<Rightarrow>
                      d\<lparr>anonymous_usage := upsert_anonymous_usage
                          \<lparr>date = today e, generations_used = currentUsage + 1,
                           anonymous_id = anonymousId c, ip_address = clientIP c,
                           fingerprint_col = sanitized c\<rparr>
                          (anonymous_usage d)\<rparr>);
            d2 = d1\<lparr>generation_logs := generation_logs d1 @
                   [\<lparr>log_user_id = user c,
                     log_anonymous_id = (if user c \<noteq> None then None else Some (anonymousId c)),
                     log_ip_address = clientIP c,
                     log_fingerprint = sanitized c,
                     log_success = True,
                     log_error_message =
                       (if falsy (errorMessage (req c)) then None else errorMessage (req c)),
                     log_limit_type = limit_name c,
                     generations_before = currentUsage,
                     generations_after = currentUsage + 1\<rparr>]\<rparr>
        in (\<lparr>status = 200,
             body = Record_body True (currentUsage + 1) (maxGenerations c - (currentUsage + 1))\<rparr>,
            d2,
            [if user c \<noteq> None then Upsert_user_usage else Upsert_anonymous_usage,
             Insert_generation_logs]))"

definition record_branch :: "env \<Rightarrow> ctx \<Rightarrow> db \<Rightarrow> response \<times> db \<times> db_op list" where
  "record_branch e c d =
     (case record_write e c (record_usage e c d) d of
        (r, d', ops) \<Rightarrow> (r, d', read_ops c @ ops))"

subsection \<open>The handler\<close>

definition dispatch :: "env \<Rightarrow> ctx \<Rightarrow> db \<Rightarrow> response \<times> db \<times> db_op list" where
  "dispatch e c d =
     (if action (req c) = Some ''check'' then check_branch e c d
      else if action (req c) = Some ''record'' \<and> success (req c) = Some True then record_branch e c d
      else (bad_request ''Invalid action'', d, []))"

definition serve :: "env \<Rightarrow> request \<Rightarrow> db \<Rightarrow> response \<times> db \<times> db_op list" where
  "serve e rq d =
     (if http_method rq = ''OPTIONS'' then (\<lparr>status = 200, body = Text ''ok''\<rparr>, d, [])
      else
        (case resolve e rq of
           Inl r \<Rightarrow> (r, d, [])
         | Inr c \<Rightarrow> dispatch e c d))"

text \<open>Requests served one at a time, each with the environment it finds.\<close>

fun run :: "(env \<times> request) list \<Rightarrow> db \<Rightarrow> db" where
  "run [] d = d"
| "run ((e, rq) # rest) d = run rest (fst (snd (serve e rq d)))"

subsection \<open>Notions of the specification\<close>

text \<open>The specification's \<^verbatim>\<open>[A-Za-z0-9]\<close>, character by character.\<close>

definition alnum_chars :: "char set" where
  "alnum_chars = set ''abcdefghijklmnopqrstuvwxyzABCDEFGHIJKLMNOPQRSTUVWXYZ0123456789''"

text \<open>The id \<^verbatim>\<open>createSecureAnonymousId\<close> returns for an address and a sanitized fingerprint.\<close>

definition anonymous_id_of :: "string \<Rightarrow> string \<Rightarrow> string" where
  "anonymous_id_of ip s = encodeHex (sha256 (TextEncoder_encode (combined ip s)))"

text \<open>
  The value of \<^verbatim>\<open>generations_used\<close> the store holds for the caller's identity and the
  day (0 without a row).
\<close>

definition stored_usage :: "env \<Rightarrow> ctx \<Rightarrow> db \<Rightarrow> int" where
  "stored_usage e c d =
     (case user c of
        Some uid \<Rightarrow> used_or_0 (single (select_user_usage uid (today e) d))
      | None \<Rightarrow> used_or_0 (single (select_anonymous_usage (anonymousId c) (today e) d)))"

text \<open>The daily caps bound every row of both tables.\<close>

definition quota_respected :: "db \<Rightarrow> bool" where
  "quota_respected d =
     ((\<forall>r \<in> set (anonymous_usage d). generations_used r \<le> 5)
      \<and> (\<forall>r \<in> set (user_usage d). generations_used r \<le> 10))"

text \<open>
  The caller's identity has at most one row for the day (the uniqueness constraint), and,
  for an anonymous caller, the day's rows of the caller's address are the caller's own:
  no other fingerprint has used the address today.
\<close>

definition own_row_only :: "env \<Rightarrow> ctx \<Rightarrow> db \<Rightarrow> bool" where
  "own_row_only e c d =
     (case user c of
        Some uid \<Rightarrow> length (select_user_usage uid (today e) d) \<le> 1
      | None \<Rightarrow>
          length (select_anonymous_usage (anonymousId c) (today e) d) \<le> 1
          \<and> (\<forall>r \<in> set (anonymous_usage d).
                date r = today e \<longrightarrow>
                  (ip_address r = clientIP c) = (anonymous_id r = anonymousId c)))"

text \<open>
  Two record requests of one caller handled concurrently, in the schedule where both
  have read \<^verbatim>\<open>currentUsage\<close> before either writes: each \<^verbatim>\<open>await\<close> of the handler is a
  separate call on the store.
\<close>

definition record_twice_interleaved :: "env \<Rightarrow> ctx \<Rightarrow> db \<Rightarrow> db" where
  "record_twice_interleaved e c d =
     (let currentUsage1 = record_usage e c d;
          currentUsage2 = record_usage e c d;
          d1 = fst (snd (record_write e c currentUsage1 d));
          d2 = fst (snd (record_write e c currentUsage2 d1))
      in d2)"

subsection \<open>Example requests and stores\<close>

definition example_env :: env where
  "example_env =
     \<lparr>getUser = (\<lambda>token. if token = ''token-1'' then Some ''user-1'' else None),
      today = ''2026-11-03'', midnight = ''2026-11-04T00:00:00.000Z''\<rparr>"

definition post :: "string \<Rightarrow> string option \<Rightarrow> RateLimitRequest option \<Rightarrow> request" where
  "post ip auth b =
     \<lparr>http_method = ''POST'', x_forwarded_for = Some ip, x_real_ip = None, cf_connecting_ip = None,
      Authorization = auth, json = b\<rparr>"

definition message :: "string \<Rightarrow> string \<Rightarrow> bool option \<Rightarrow> RateLimitRequest" where
  "message a f s = \<lparr>action = Some a, fingerprint = Some f, success = s, errorMessage = None\<rparr>"

text \<open>The ids of the fingerprints \<^verbatim>\<open>fpA\<close> and \<^verbatim>\<open>fpB\<close> at the address 203.0.113.7.\<close>

definition id_A :: string where
  "id_A = ''d28d1903bc658fc17f7a32d81e84808b5f250c1746214fd320693b97365a11cf''"

definition id_B :: string where
  "id_B = ''2e41cda300beacd234164481e9f4e135846a4381399b13b48bff815fe4226c38''"

definition anonymous_row :: "string \<Rightarrow> string \<Rightarrow> int \<Rightarrow> anonymous_usage_row" where
  "anonymous_row aid fp n =
     \<lparr>date = ''2026-11-03'', generations_used = n, anonymous_id = aid,
      ip_address = ''203.0.113.7'', fingerprint_col = fp\<rparr>"

definition anonymous_db :: "int \<Rightarrow> int \<Rightarrow> db" where
  "anonymous_db a b =
     \<lparr>user_usage = [],
      anonymous_usage = [anonymous_row id_A ''fpA'' a, anonymous_row id_B ''fpB'' b],
      generation_logs = []\<rparr>"

definition user_db :: "int \<Rightarrow> db" where
  "user_db n =
     \<lparr>user_usage = [\<lparr>date = ''2026-11-03'', generations_used = n, user_id = ''user-1''\<rparr>],
      anonymous_usage = [], generation_logs = []\<rparr>"

definition anonymous_ctx :: "string \<Rightarrow> string \<Rightarrow> RateLimitRequest \<Rightarrow> ctx" where
  "anonymous_ctx aid fp b =
     \<lparr>clientIP = ''203.0.113.7'', user = None, anonymousId = aid, sanitized = fp, req = b\<rparr>"

definition user_ctx :: "RateLimitRequest \<Rightarrow> ctx" where
  "user_ctx b =
     \<lparr>clientIP = ''203.0.113.7'', user = Some ''user-1'', anonymousId = id_A, sanitized = ''fpA'',
      req = b\<rparr>"

section \<open>Properties\<close>

subsection \<open>Sanitization\<close>

lemma is_alnum_iff: "is_alnum c = (c \<in> alnum_chars)"
  by (cases c) (simp add: is_alnum_def alnum_chars_def Let_def)

lemma is_alnum_eq: "is_alnum = (\<lambda>c. c \<in> alnum_chars)"
  by (rule ext) (rule is_alnum_iff)

text \<open>
  C8. Sanitization raises exactly when the fingerprint is missing (absent or the empty
  string, the two values \<^verbatim>\<open>!fingerprint\<close> accepts) or longer than 500; otherwise it
  returns the input without the characters outside \<^verbatim>\<open>[A-Za-z0-9]\<close>, cut at 500. What
  it returns holds alphanumeric characters only and is at most 500 long.
\<close>

theorem sanitizeFingerprint_contract:
  "sanitizeFingerprint None = Inl Invalid_fingerprint
   \<and> sanitizeFingerprint (Some f) =
       (if f = [] \<or> 500 < length f then Inl Invalid_fingerprint
        else Inr (take 500 (filter (\<lambda>c. c \<in> alnum_chars) f)))
   \<and> (sanitizeFingerprint fp = Inr s \<longrightarrow> set s \<subseteq> alnum_chars \<and> length s \<le> 500)"
proof -
  have a: "sanitizeFingerprint None = Inl Invalid_fingerprint"
    by (simp add: sanitizeFingerprint_def)
  have b: "sanitizeFingerprint (Some f) =
       (if f = [] \<or> 500 < length f then Inl Invalid_fingerprint
        else Inr (take 500 (filter (\<lambda>c. c \<in> alnum_chars) f)))"
    by (simp add: sanitizeFingerprint_def MAX_FINGERPRINT_LENGTH_def is_alnum_eq)
  have c: "set s \<subseteq> alnum_chars \<and> length s \<le> 500" if "sanitizeFingerprint fp = Inr s"
  proof -
    from that obtain g where g: "fp = Some g" "s = take 500 (filter is_alnum g)"
      by (auto simp: sanitizeFingerprint_def MAX_FINGERPRINT_LENGTH_def
          split: option.splits if_splits)
    have "set s \<subseteq> set (filter is_alnum g)"
      unfolding g by (rule set_take_subset)
    then have "set s \<subseteq> alnum_chars"
      by (auto simp: is_alnum_iff)
    moreover have "length s \<le> 500"
      unfolding g by simp
    ultimately show ?thesis ..
  qed
  from a b c show ?thesis by blast
qed

theorem sanitizeFingerprint_contract_witness:
  "sanitizeFingerprint (Some ''fp-12_ab!Z'') = Inr ''fp12abZ''
   \<and> set ''fp12abZ'' \<subseteq> alnum_chars \<and> length ''fp12abZ'' \<le> 500
   \<and> sanitizeFingerprint (Some (replicate 501 CHR ''a'')) = Inl Invalid_fingerprint
   \<and> sanitizeFingerprint (Some []) = Inl Invalid_fingerprint"
proof -
  have e: "sanitizeFingerprint (Some ''fp-12_ab!Z'') = Inr ''fp12abZ''"
    by (simp add: sanitizeFingerprint_def MAX_FINGERPRINT_LENGTH_def is_alnum_def)
  from sanitizeFingerprint_contract [of "''fp-12_ab!Z''" "Some ''fp-12_ab!Z''" "''fp12abZ''"] e
  have "set ''fp12abZ'' \<subseteq> alnum_chars \<and> length ''fp12abZ'' \<le> 500"
    by blast
  moreover have "sanitizeFingerprint (Some (replicate 501 CHR ''a'')) = Inl Invalid_fingerprint"
    using sanitizeFingerprint_contract [of "replicate 501 CHR ''a''" None "[]"] by simp
  moreover have "sanitizeFingerprint (Some []) = Inl Invalid_fingerprint"
    using sanitizeFingerprint_contract [of "[]" None "[]"] by simp
  ultimately show ?thesis using e by blast
qed


subsection \<open>Resolving a request\<close>

lemma sanitize_ok:
  "f \<noteq> [] \<Longrightarrow> length f \<le> 500 \<Longrightarrow> sanitizeFingerprint (Some f) = Inr (filter is_alnum f)"
  by (simp add: sanitizeFingerprint_def MAX_FINGERPRINT_LENGTH_def)
     (meson le_trans length_filter_le not_less)

lemma resolve_ok:
  assumes "validateRequest rq = (ip, True)" "json rq = Some b" "fingerprint b = Some f"
    "f \<noteq> []" "length f \<le> 500"
  shows "resolve e rq =
           Inr \<lparr>clientIP = ip, user = authenticate e rq,
                anonymousId = anonymous_id_of ip (filter is_alnum f),
                sanitized = filter is_alnum f, req = b\<rparr>"
  using assms
  by (simp add: resolve_def falsy_def createSecureAnonymousId_def sanitize_ok anonymous_id_of_def)

lemma validate_example: "validateRequest (post ''203.0.113.7'' a b) = (''203.0.113.7'', True)"
  by (simp add: validateRequest_def post_def or_else_def falsy_def trim_def first_of_split_def
      is_space_def)

lemma authenticate_bearer:
  "authenticate example_env (post ip (Some ''Bearer token-1'') b) = Some ''user-1''"
  by (simp add: authenticate_def post_def example_env_def)

lemma authenticate_none: "authenticate e (post ip None b) = None"
  by (simp add: authenticate_def post_def)

text \<open>The two example ids are the SHA-256 digests the function computes.\<close>

lemma anonymous_id_A: "anonymous_id_of ''203.0.113.7'' ''fpA'' = id_A"
  unfolding anonymous_id_of_def id_A_def by code_simp

lemma anonymous_id_B: "anonymous_id_of ''203.0.113.7'' ''fpB'' = id_B"
  unfolding anonymous_id_of_def id_B_def by code_simp

lemma filter_fpA: "filter is_alnum ''fpA'' = ''fpA''"
  by (simp add: is_alnum_def)

lemma filter_fpB: "filter is_alnum ''fpB'' = ''fpB''"
  by (simp add: is_alnum_def)

lemma resolve_A:
  "resolve example_env (post ''203.0.113.7'' None (Some (message a ''fpA'' s))) =
     Inr (anonymous_ctx id_A ''fpA'' (message a ''fpA'' s))"
proof -
  have "resolve example_env (post ''203.0.113.7'' None (Some (message a ''fpA'' s))) =
      Inr \<lparr>clientIP = ''203.0.113.7'',
           user = authenticate example_env (post ''203.0.113.7'' None (Some (message a ''fpA'' s))),
           anonymousId = anonymous_id_of ''203.0.113.7'' (filter is_alnum ''fpA''),
           sanitized = filter is_alnum ''fpA'', req = message a ''fpA'' s\<rparr>"
    by (rule resolve_ok [OF validate_example]) (simp_all add: post_def message_def)
  then show ?thesis
    by (simp only: filter_fpA anonymous_id_A authenticate_none anonymous_ctx_def)
qed

lemma resolve_B:
  "resolve example_env (post ''203.0.113.7'' None (Some (message a ''fpB'' s))) =
     Inr (anonymous_ctx id_B ''fpB'' (message a ''fpB'' s))"
proof -
  have "resolve example_env (post ''203.0.113.7'' None (Some (message a ''fpB'' s))) =
      Inr \<lparr>clientIP = ''203.0.113.7'',
           user = authenticate example_env (post ''203.0.113.7'' None (Some (message a ''fpB'' s))),
           anonymousId = anonymous_id_of ''203.0.113.7'' (filter is_alnum ''fpB''),
           sanitized = filter is_alnum ''fpB'', req = message a ''fpB'' s\<rparr>"
    by (rule resolve_ok [OF validate_example]) (simp_all add: post_def message_def)
  then show ?thesis
    by (simp only: filter_fpB anonymous_id_B authenticate_none anonymous_ctx_def)
qed

lemma resolve_user:
  "resolve example_env (post ''203.0.113.7'' (Some ''Bearer token-1'') (Some (message a ''fpA'' s))) =
     Inr (user_ctx (message a ''fpA'' s))"
proof -
  let ?rq = "post ''203.0.113.7'' (Some ''Bearer token-1'') (Some (message a ''fpA'' s))"
  have "resolve example_env ?rq =
      Inr \<lparr>clientIP = ''203.0.113.7'', user = authenticate example_env ?rq,
           anonymousId = anonymous_id_of ''203.0.113.7'' (filter is_alnum ''fpA''),
           sanitized = filter is_alnum ''fpA'', req = message a ''fpA'' s\<rparr>"
    by (rule resolve_ok [OF validate_example]) (simp_all add: post_def message_def)
  then show ?thesis
    by (simp only: filter_fpA anonymous_id_A authenticate_bearer user_ctx_def)
qed

lemma method_post: "http_method (post ip a b) \<noteq> ''OPTIONS''"
  by (simp add: post_def)

lemma user_ctx_sel:
  "user (user_ctx b) = Some ''user-1''" "req (user_ctx b) = b"
  by (simp_all add: user_ctx_def)

lemma anonymous_ctx_sel:
  "user (anonymous_ctx a f b) = None" "req (anonymous_ctx a f b) = b"
  by (simp_all add: anonymous_ctx_def)

lemma message_sel:
  "action (message a f s) = Some a" "success (message a f s) = s"
  "fingerprint (message a f s) = Some f"
  by (simp_all add: message_def)

lemma example_env_sel:
  "today example_env = ''2026-11-03''" "midnight example_env = ''2026-11-04T00:00:00.000Z''"
  by (simp_all add: example_env_def)

lemma id_A_neq_B: "id_A \<noteq> id_B"
  by (simp add: id_A_def id_B_def)

subsection \<open>Usage derived on the example stores\<close>

lemma record_usage_user_db: "record_usage example_env (user_ctx b) (user_db n) = n"
  by (simp add: record_usage_def select_user_usage_def user_db_def example_env_def
      single_def used_or_0_def user_ctx_def)

lemma check_usage_A:
  "check_usage example_env (anonymous_ctx id_A f b) (anonymous_db m n) = max m n"
  using id_A_neq_B
  by (simp add: check_usage_def select_anonymous_usage_def anonymous_db_def example_env_def
      single_def used_or_0_def anonymous_ctx_def anonymous_row_def reduce_used_def)

lemma check_usage_B:
  "check_usage example_env (anonymous_ctx id_B f b) (anonymous_db m n) = max n m"
  using id_A_neq_B
  by (simp add: check_usage_def select_anonymous_usage_def anonymous_db_def example_env_def
      single_def used_or_0_def anonymous_ctx_def anonymous_row_def reduce_used_def)

lemma record_usage_A:
  "record_usage example_env (anonymous_ctx id_A f b) (anonymous_db m n) = max m (m + n)"
  using id_A_neq_B
  by (simp add: record_usage_def select_anonymous_usage_def anonymous_db_def example_env_def
      single_def used_or_0_def anonymous_ctx_def anonymous_row_def reduce_used_def)

subsection \<open>The limit at record time\<close>

text \<open>
  C1. A record request with \<^verbatim>\<open>success = true\<close> that reaches the record branch while the
  usage it derives is at least the cap (10 for an authenticated caller, 5 otherwise) is
  answered 429 with \<^verbatim>\<open>canGenerate = false\<close> and \<^verbatim>\<open>generationsRemaining = 0\<close>; the
  store is returned as it was, and the only calls made on it are the selects that derive
  the usage: no upsert and no insert.
\<close>

theorem record_at_cap_rejected:
  assumes "http_method rq \<noteq> ''OPTIONS''" and "resolve e rq = Inr c"
    and "action (req c) = Some ''record''" and "success (req c) = Some True"
    and "maxGenerations c \<le> record_usage e c d"
  shows "maxGenerations c = (if user c \<noteq> None then 10 else 5)
    \<and> serve e rq d =
        (\<lparr>status = 429,
          body = Limit_body ''Generation limit exceeded'' False (record_usage e c d) 0\<rparr>,
         d, read_ops c)
    \<and> set (read_ops c) \<subseteq> {Select_user_usage, Select_anonymous_usage}"
  using assms
  by (simp add: serve_def dispatch_def record_branch_def record_write_def read_ops_def
      maxGenerations_def AUTHENTICATED_DAILY_LIMIT_def ANONYMOUS_DAILY_LIMIT_def)

theorem record_at_cap_rejected_witness:
  "serve example_env
     (post ''203.0.113.7'' (Some ''Bearer token-1'') (Some (message ''record'' ''fpA'' (Some True))))
     (user_db 10) =
     (\<lparr>status = 429, body = Limit_body ''Generation limit exceeded'' False 10 0\<rparr>,
      user_db 10, [Select_user_usage])"
proof -
  let ?c = "user_ctx (message ''record'' ''fpA'' (Some True))"
  have a: "action (req ?c) = Some ''record''" and s: "success (req ?c) = Some True"
    by (simp_all add: message_sel user_ctx_sel)
  have l: "maxGenerations ?c \<le> record_usage example_env ?c (user_db 10)"
    by (simp add: record_usage_user_db maxGenerations_def AUTHENTICATED_DAILY_LIMIT_def
        user_ctx_sel)
  from record_at_cap_rejected [OF method_post resolve_user a s l] show ?thesis
    by (simp add: record_usage_user_db read_ops_def user_ctx_sel)
qed

subsection \<open>The answer to a check\<close>

text \<open>
  C4. A check request that reaches the check branch is answered with the cap 10 for an
  authenticated caller and 5 otherwise, \<^verbatim>\<open>canGenerate = (used < cap)\<close> and
  \<^verbatim>\<open>generationsRemaining = max(0, cap - used)\<close>, where \<^verbatim>\<open>used\<close> is the usage the
  check branch derives for the identity and the day; the store is not changed.
\<close>

theorem check_response:
  assumes "http_method rq \<noteq> ''OPTIONS''" and "resolve e rq = Inr c"
    and "action (req c) = Some ''check''"
  shows "serve e rq d =
          (\<lparr>status = 200,
            body = Check_body
              \<lparr>canGenerate = (check_usage e c d < (if user c \<noteq> None then 10 else 5)),
               generationsUsed = check_usage e c d,
               generationsRemaining =
                 max 0 ((if user c \<noteq> None then 10 else 5) - check_usage e c d),
               resetTime = midnight e,
               isAuthenticated = (user c \<noteq> None), limitType = limit_name c\<rparr>\<rparr>,
           d, read_ops c)"
  using assms
  by (simp add: serve_def dispatch_def check_branch_def Let_def
      maxGenerations_def AUTHENTICATED_DAILY_LIMIT_def ANONYMOUS_DAILY_LIMIT_def)

theorem check_response_witness:
  "serve example_env (post ''203.0.113.7'' None (Some (message ''check'' ''fpA'' None)))
     (anonymous_db 2 4) =
     (\<lparr>status = 200,
       body = Check_body \<lparr>canGenerate = True, generationsUsed = 4, generationsRemaining = 1,
                resetTime = ''2026-11-04T00:00:00.000Z'', isAuthenticated = False,
                limitType = ''anonymous''\<rparr>\<rparr>,
      anonymous_db 2 4, [Select_anonymous_usage, Select_anonymous_usage])"
proof -
  let ?c = "anonymous_ctx id_A ''fpA'' (message ''check'' ''fpA'' None)"
  have a: "action (req ?c) = Some ''check''"
    by (simp add: message_sel anonymous_ctx_sel)
  from check_response [OF method_post resolve_A a, of "anonymous_db 2 4"] show ?thesis
    by (simp add: check_usage_A read_ops_def limit_name_def anonymous_ctx_sel example_env_sel)
qed

subsection \<open>Requests rejected before the store is reached\<close>

lemma post_sel: "json (post ip a b) = b" "http_method (post ip a b) = ''POST''"
  by (simp_all add: post_def)

lemma resolve_invalid_ip:
  "validateRequest rq = (ip, False) \<Longrightarrow> resolve e rq = Inl (bad_request ''Invalid request'')"
  by (simp add: resolve_def)

lemma resolve_no_body:
  "validateRequest rq = (ip, True) \<Longrightarrow> json rq = None \<Longrightarrow> resolve e rq = Inl internal_error"
  by (simp add: resolve_def)

lemma resolve_no_fingerprint:
  "validateRequest rq = (ip, True) \<Longrightarrow> json rq = Some b \<Longrightarrow> falsy (fingerprint b) \<Longrightarrow>
   resolve e rq = Inl (bad_request ''Fingerprint required'')"
  by (simp add: resolve_def)

lemma resolve_long_fingerprint:
  "validateRequest rq = (ip, True) \<Longrightarrow> json rq = Some b \<Longrightarrow> fingerprint b = Some f \<Longrightarrow>
   500 < length f \<Longrightarrow> resolve e rq = Inl internal_error"
  by (auto simp add: resolve_def createSecureAnonymousId_def sanitizeFingerprint_def
      MAX_FINGERPRINT_LENGTH_def falsy_def)

lemma serve_rejected:
  "http_method rq \<noteq> ''OPTIONS'' \<Longrightarrow> resolve e rq = Inl r \<Longrightarrow> serve e rq d = (r, d, [])"
  by (simp add: serve_def)

text \<open>
  C9. The claim asks for 400 on every invalid request. The handler answers 400, with no
  call on the store, when no client address can be determined and when the fingerprint is
  missing. A fingerprint of 501 characters and a body that is not JSON raise inside the
  \<^verbatim>\<open>try\<close> block and are answered by its \<^verbatim>\<open>catch\<close>: 500, again with no call on
  the store.
\<close>

theorem invalid_requests_answered:
  "serve e \<lparr>http_method = ''POST'', x_forwarded_for = None, x_real_ip = None, cf_connecting_ip = None,
            Authorization = None, json = Some (message ''check'' ''fpA'' None)\<rparr> d =
     (\<lparr>status = 400, body = Error_body ''Invalid request''\<rparr>, d, [])
   \<and> serve e (post ''203.0.113.7'' None
        (Some \<lparr>action = Some ''check'', fingerprint = None, success = None, errorMessage = None\<rparr>)) d =
     (\<lparr>status = 400, body = Error_body ''Fingerprint required''\<rparr>, d, [])
   \<and> serve e (post ''203.0.113.7'' None
        (Some (message ''check'' (replicate 501 CHR ''a'') None))) d =
     (\<lparr>status = 500, body = Error_body ''Internal server error''\<rparr>, d, [])
   \<and> serve e (post ''203.0.113.7'' None None) d =
     (\<lparr>status = 500, body = Error_body ''Internal server error''\<rparr>, d, [])"
proof -
  let ?no_ip = "\<lparr>http_method = ''POST'', x_forwarded_for = None, x_real_ip = None,
      cf_connecting_ip = None, Authorization = None,
      json = Some (message ''check'' ''fpA'' None)\<rparr>"
  have v: "validateRequest ?no_ip = (''unknown'', False)"
    by (simp add: validateRequest_def or_else_def falsy_def)
  have 1: "serve e ?no_ip d = (bad_request ''Invalid request'', d, [])"
    by (rule serve_rejected [OF _ resolve_invalid_ip [OF v]]) simp
  have 2: "serve e (post ''203.0.113.7'' None
        (Some \<lparr>action = Some ''check'', fingerprint = None, success = None, errorMessage = None\<rparr>)) d =
     (bad_request ''Fingerprint required'', d, [])"
    by (rule serve_rejected [OF method_post resolve_no_fingerprint [OF validate_example]])
       (simp add: post_sel, simp add: falsy_def)
  have 3: "serve e (post ''203.0.113.7'' None
        (Some (message ''check'' (replicate 501 CHR ''a'') None))) d = (internal_error, d, [])"
    by (rule serve_rejected [OF method_post resolve_long_fingerprint [OF validate_example]])
       (simp add: post_sel, simp add: message_sel, simp)
  have 4: "serve e (post ''203.0.113.7'' None None) d = (internal_error, d, [])"
    by (rule serve_rejected [OF method_post resolve_no_body [OF validate_example]])
       (simp add: post_sel)
  from 1 2 3 4 show ?thesis
    by (simp add: bad_request_def internal_error_def)
qed

subsection \<open>A failed attempt\<close>

text \<open>
  C10. A record request with \<^verbatim>\<open>success = false\<close> matches neither branch: it is answered
  400 \<^verbatim>\<open>Invalid action\<close>, and the store, \<^verbatim>\<open>generation_logs\<close> included, is returned as
  it was, with no call made on it. The counters are not incremented, and no log entry is
  appended either.
\<close>

theorem failed_attempt_not_logged:
  "serve example_env (post ''203.0.113.7'' None (Some (message ''record'' ''fpA'' (Some False)))) d =
     (\<lparr>status = 400, body = Error_body ''Invalid action''\<rparr>, d, [])"
  by (simp add: serve_def method_post resolve_A dispatch_def anonymous_ctx_sel message_sel
      bad_request_def)

subsection \<open>The usage derived by check and by record\<close>

text \<open>
  C5. For an anonymous caller the check branch sums the rows of the address without the
  caller's own row; the record branch sums all of them. On a store where the caller's row
  holds 2 and another fingerprint of the same address holds 2, check derives 2 and record
  derives 4.
\<close>

theorem record_usage_differs_from_check_usage:
  "check_usage example_env (anonymous_ctx id_A ''fpA'' (message ''record'' ''fpA'' (Some True)))
      (anonymous_db 2 2) = 2
   \<and> record_usage example_env (anonymous_ctx id_A ''fpA'' (message ''record'' ''fpA'' (Some True)))
      (anonymous_db 2 2) = 4"
  by (simp add: check_usage_A record_usage_A)

subsection \<open>The upsert and the usage of a caller alone on its address\<close>

lemma used_or_0_Some: "used_or_0 (Some r) = generations_used r"
  by (simp add: used_or_0_def)

lemma reduce_used_sum: "reduce_used rows = sum_list (map generations_used rows)"
proof -
  have "foldl (\<lambda>sum record. sum + generations_used record) a rows
      = a + sum_list (map generations_used rows)" for a
    by (induction rows arbitrary: a) simp_all
  then show ?thesis by (simp add: reduce_used_def)
qed

lemma reduce_single: "length rows \<le> 1 \<Longrightarrow> reduce_used rows = used_or_0 (single rows)"
  by (cases rows) (simp_all add: reduce_used_def single_def used_or_0_def)

lemma filter_replace:
  "P new \<Longrightarrow> filter P (map (\<lambda>r. if P r then new else r) rows)
     = replicate (length (filter P rows)) new"
  by (induction rows) simp_all

lemma list_ex_filter: "list_ex P rows = (filter P rows \<noteq> [])"
  by (induction rows) simp_all

lemma filter_upsert_user:
  assumes "length (filter (\<lambda>r. user_id r = uid \<and> date r = day) rows) \<le> 1"
  shows "filter (\<lambda>r. user_id r = uid \<and> date r = day)
           (upsert_user_usage \<lparr>date = day, generations_used = n, user_id = uid\<rparr> rows)
         = [\<lparr>date = day, generations_used = n, user_id = uid\<rparr>]"
proof (cases "filter (\<lambda>r. user_id r = uid \<and> date r = day) rows = []")
  case True
  then show ?thesis
    by (simp add: upsert_user_usage_def list_ex_filter)
next
  case False
  with assms have l: "length (filter (\<lambda>r. user_id r = uid \<and> date r = day) rows) = 1"
    by (cases "filter (\<lambda>r. user_id r = uid \<and> date r = day) rows") simp_all
  have "filter (\<lambda>r. user_id r = uid \<and> date r = day)
          (map (\<lambda>r. if user_id r = uid \<and> date r = day
                     then \<lparr>date = day, generations_used = n, user_id = uid\<rparr> else r) rows)
        = replicate (length (filter (\<lambda>r. user_id r = uid \<and> date r = day) rows))
            \<lparr>date = day, generations_used = n, user_id = uid\<rparr>"
    by (rule filter_replace) simp
  with False l show ?thesis
    by (simp add: upsert_user_usage_def list_ex_filter)
qed

lemma filter_upsert_anonymous:
  assumes "length (filter (\<lambda>r. anonymous_id r = aid \<and> date r = day) rows) \<le> 1"
  shows "filter (\<lambda>r. anonymous_id r = aid \<and> date r = day)
           (upsert_anonymous_usage
              \<lparr>date = day, generations_used = n, anonymous_id = aid, ip_address = ip,
               fingerprint_col = fp\<rparr> rows)
         = [\<lparr>date = day, generations_used = n, anonymous_id = aid, ip_address = ip,
             fingerprint_col = fp\<rparr>]"
proof (cases "filter (\<lambda>r. anonymous_id r = aid \<and> date r = day) rows = []")
  case True
  then show ?thesis
    by (simp add: upsert_anonymous_usage_def list_ex_filter)
next
  case False
  with assms have l: "length (filter (\<lambda>r. anonymous_id r = aid \<and> date r = day) rows) = 1"
    by (cases "filter (\<lambda>r. anonymous_id r = aid \<and> date r = day) rows") simp_all
  have "filter (\<lambda>r. anonymous_id r = aid \<and> date r = day)
          (map (\<lambda>r. if anonymous_id r = aid \<and> date r = day
                     then \<lparr>date = day, generations_used = n, anonymous_id = aid,
                           ip_address = ip, fingerprint_col = fp\<rparr> else r) rows)
        = replicate (length (filter (\<lambda>r. anonymous_id r = aid \<and> date r = day) rows))
            \<lparr>date = day, generations_used = n, anonymous_id = aid, ip_address = ip,
             fingerprint_col = fp\<rparr>"
    by (rule filter_replace) simp
  with False l show ?thesis
    by (simp add: upsert_anonymous_usage_def list_ex_filter)
qed

lemma set_upsert_user: "set (upsert_user_usage new rows) \<subseteq> insert new (set rows)"
  by (auto simp: upsert_user_usage_def)

lemma set_upsert_anonymous: "set (upsert_anonymous_usage new rows) \<subseteq> insert new (set rows)"
  by (auto simp: upsert_anonymous_usage_def)

lemma record_usage_own:
  assumes "own_row_only e c d"
  shows "record_usage e c d = stored_usage e c d"
proof (cases "user c")
  case (Some uid)
  then show ?thesis
    by (simp add: record_usage_def stored_usage_def)
next
  case None
  let ?K = "\<lambda>r. anonymous_id r = anonymousId c \<and> date r = today e"
  from assms None have u: "length (filter ?K (anonymous_usage d)) \<le> 1"
    and s: "\<forall>r \<in> set (anonymous_usage d).
             date r = today e \<longrightarrow> (ip_address r = clientIP c) = (anonymous_id r = anonymousId c)"
    by (simp_all add: own_row_only_def select_anonymous_usage_def)
  have "filter (\<lambda>r. ip_address r = clientIP c \<and> date r = today e) (anonymous_usage d)
      = filter ?K (anonymous_usage d)"
    by (rule filter_cong [OF refl]) (use s in blast)
  with u None show ?thesis
    by (simp add: record_usage_def stored_usage_def select_anonymous_usage_def reduce_single
        Let_def)
qed


lemma record_branch_at_cap:
  "maxGenerations c \<le> record_usage e c d \<Longrightarrow> fst (snd (record_branch e c d)) = d"
  by (simp add: record_branch_def record_write_def)

lemma record_branch_below:
  assumes o: "own_row_only e c d" and b: "stored_usage e c d < maxGenerations c"
  shows "stored_usage e c (fst (snd (record_branch e c d))) = stored_usage e c d + 1
    \<and> own_row_only e c (fst (snd (record_branch e c d)))"
proof (cases "user c")
  case (Some uid)
  let ?new = "\<lparr>date = today e, generations_used = stored_usage e c d + 1, user_id = uid\<rparr>"
  from o Some have u: "length (filter (\<lambda>r. user_id r = uid \<and> date r = today e) (user_usage d)) \<le> 1"
    by (simp add: own_row_only_def select_user_usage_def)
  have sel: "select_user_usage uid (today e) (fst (snd (record_branch e c d))) = [?new]"
    using b Some filter_upsert_user [OF u, of "stored_usage e c d + 1"]
    by (simp add: record_branch_def record_write_def record_usage_own [OF o] Let_def
        select_user_usage_def)
  with Some show ?thesis
    by (simp add: stored_usage_def own_row_only_def single_def used_or_0_def)
next
  case None
  let ?new = "\<lparr>date = today e, generations_used = stored_usage e c d + 1,
               anonymous_id = anonymousId c, ip_address = clientIP c,
               fingerprint_col = sanitized c\<rparr>"
  from o None
  have u: "length (filter (\<lambda>r. anonymous_id r = anonymousId c \<and> date r = today e)
             (anonymous_usage d)) \<le> 1"
    and s: "\<forall>r \<in> set (anonymous_usage d).
             date r = today e \<longrightarrow> (ip_address r = clientIP c) = (anonymous_id r = anonymousId c)"
    by (simp_all add: own_row_only_def select_anonymous_usage_def)
  have rows: "anonymous_usage (fst (snd (record_branch e c d)))
      = upsert_anonymous_usage ?new (anonymous_usage d)"
    using b None
    by (simp add: record_branch_def record_write_def record_usage_own [OF o] Let_def)
  have sel: "select_anonymous_usage (anonymousId c) (today e) (fst (snd (record_branch e c d)))
      = [?new]"
    using filter_upsert_anonymous [OF u, of "stored_usage e c d + 1" "clientIP c" "sanitized c"]
    by (simp add: select_anonymous_usage_def rows)
  have "\<forall>r \<in> set (upsert_anonymous_usage ?new (anonymous_usage d)).
          date r = today e \<longrightarrow> (ip_address r = clientIP c) = (anonymous_id r = anonymousId c)"
    using s set_upsert_anonymous [of ?new "anonymous_usage d"] by auto
  with sel None show ?thesis
    by (simp add: stored_usage_def own_row_only_def single_def used_or_0_def rows)
qed

lemma serve_record:
  "http_method rq \<noteq> ''OPTIONS'' \<Longrightarrow> resolve e rq = Inr c \<Longrightarrow> action (req c) = Some ''record'' \<Longrightarrow>
   success (req c) = Some True \<Longrightarrow> serve e rq d = record_branch e c d"
  by (simp add: serve_def dispatch_def)

lemma stored_after_records:
  assumes sv: "\<And>d. serve e rq d = record_branch e c d"
    and "own_row_only e c d" and "stored_usage e c d \<le> maxGenerations c"
  shows "stored_usage e c (run (replicate N (e, rq)) d)
      = min (stored_usage e c d + int N) (maxGenerations c)"
  using assms(2,3)
proof (induction N arbitrary: d)
  case 0
  then show ?case by simp
next
  case (Suc N)
  let ?d' = "fst (snd (record_branch e c d))"
  show ?case
  proof (cases "stored_usage e c d < maxGenerations c")
    case True
    from record_branch_below [OF Suc.prems(1) True]
    have st: "stored_usage e c ?d' = stored_usage e c d + 1" and o: "own_row_only e c ?d'"
      by simp_all
    from st True have le: "stored_usage e c ?d' \<le> maxGenerations c"
      by simp
    from Suc.IH [OF o le] st show ?thesis
      by (simp add: sv)
  next
    case False
    with Suc.prems have eq: "stored_usage e c d = maxGenerations c"
      by simp
    then have "maxGenerations c \<le> record_usage e c d"
      by (simp add: record_usage_own [OF Suc.prems(1)])
    then have "?d' = d"
      by (rule record_branch_at_cap)
    with Suc.IH [OF Suc.prems] eq show ?thesis
      by (simp add: sv)
  qed
qed

subsection \<open>The caps are an invariant of the store\<close>

lemma record_write_respects:
  assumes "quota_respected d"
  shows "quota_respected (fst (snd (record_write e c u d)))"
proof (cases "maxGenerations c \<le> u")
  case True
  with assms show ?thesis by (simp add: record_write_def)
next
  case False
  show ?thesis
  proof (cases "user c")
    case (Some uid)
    with False have "u + 1 \<le> 10"
      by (simp add: maxGenerations_def AUTHENTICATED_DAILY_LIMIT_def)
    with assms False Some
      set_upsert_user [of "\<lparr>date = today e, generations_used = u + 1, user_id = uid\<rparr>" "user_usage d"]
    show ?thesis
      by (auto simp: record_write_def quota_respected_def Let_def)
  next
    case None
    with False have "u + 1 \<le> 5"
      by (simp add: maxGenerations_def ANONYMOUS_DAILY_LIMIT_def)
    with assms False None
      set_upsert_anonymous [of "\<lparr>date = today e, generations_used = u + 1,
          anonymous_id = anonymousId c, ip_address = clientIP c,
          fingerprint_col = sanitized c\<rparr>" "anonymous_usage d"]
    show ?thesis
      by (auto simp: record_write_def quota_respected_def Let_def)
  qed
qed

lemma check_branch_db: "fst (snd (check_branch e c d)) = d"
  by (simp add: check_branch_def Let_def)

lemma record_branch_db:
  "fst (snd (record_branch e c d)) = fst (snd (record_write e c (record_usage e c d) d))"
  by (simp add: record_branch_def split: prod.splits)

lemma serve_respects:
  assumes "quota_respected d"
  shows "quota_respected (fst (snd (serve e rq d)))"
proof -
  have "quota_respected (fst (snd (dispatch e c d)))" for c
    using assms record_write_respects [OF assms, of e c "record_usage e c d"]
    by (simp add: dispatch_def check_branch_db record_branch_db)
  with assms show ?thesis
    by (simp add: serve_def split: sum.splits)
qed

lemma run_respects: "quota_respected d \<Longrightarrow> quota_respected (run rs d)"
  by (induction rs arbitrary: d) (auto simp: serve_respects)

lemma stored_usage_row:
  assumes "stored_usage e c d = n" "n \<noteq> 0" "user c = None"
  shows "\<exists>r \<in> set (anonymous_usage d). generations_used r = n"
proof -
  from assms obtain r where
    r: "select_anonymous_usage (anonymousId c) (today e) d = [r]" "generations_used r = n"
    by (auto simp: stored_usage_def single_def used_or_0_def split: list.splits if_splits)
  then have "r \<in> set (select_anonymous_usage (anonymousId c) (today e) d)"
    by simp
  then have "r \<in> set (anonymous_usage d)"
    by (simp add: select_anonymous_usage_def)
  with r show ?thesis by blast
qed

lemma own_row_only_empty: "own_row_only e c empty_db"
  by (simp add: own_row_only_def empty_db_def select_user_usage_def select_anonymous_usage_def
      split: option.splits)

lemma stored_usage_empty: "stored_usage e c empty_db = 0"
  by (simp add: stored_usage_def empty_db_def select_user_usage_def select_anonymous_usage_def
      single_def used_or_0_def split: option.splits)

lemma max_anonymous: "maxGenerations (anonymous_ctx a f b) = 5"
  by (simp add: maxGenerations_def anonymous_ctx_sel ANONYMOUS_DAILY_LIMIT_def)

lemma max_user: "maxGenerations (user_ctx b) = 10"
  by (simp add: maxGenerations_def user_ctx_sel AUTHENTICATED_DAILY_LIMIT_def)

lemma six_records_A:
  "stored_usage example_env (anonymous_ctx id_A ''fpA'' (message ''record'' ''fpA'' (Some True)))
     (run (replicate 6 (example_env,
        post ''203.0.113.7'' None (Some (message ''record'' ''fpA'' (Some True))))) empty_db) = 5"
proof -
  let ?c = "anonymous_ctx id_A ''fpA'' (message ''record'' ''fpA'' (Some True))"
  let ?rq = "post ''203.0.113.7'' None (Some (message ''record'' ''fpA'' (Some True)))"
  have sv: "serve example_env ?rq d = record_branch example_env ?c d" for d
    by (rule serve_record [OF method_post resolve_A]) (simp_all add: anonymous_ctx_sel message_sel)
  have "stored_usage example_env ?c (run (replicate 6 (example_env, ?rq)) empty_db)
      = min (stored_usage example_env ?c empty_db + int 6) (maxGenerations ?c)"
    by (rule stored_after_records [OF sv own_row_only_empty])
       (simp add: stored_usage_empty max_anonymous)
  then show ?thesis
    by (simp add: stored_usage_empty max_anonymous)
qed

text \<open>
  C2. In every store reached from the empty one by serving requests one at a time
  (whatever the requests and whatever each finds as date and auth provider), every row of
  \<^verbatim>\<open>anonymous_usage\<close> holds at most 5 and every row of \<^verbatim>\<open>user_usage\<close> at most 10:
  the record branch writes \<^verbatim>\<open>currentUsage + 1\<close> only after it has found
  \<^verbatim>\<open>currentUsage\<close> below the cap.
\<close>

theorem quota_never_exceeded:
  "(\<forall>r \<in> set (anonymous_usage (run rs empty_db)). generations_used r \<le> 5)
   \<and> (\<forall>r \<in> set (user_usage (run rs empty_db)). generations_used r \<le> 10)"
proof -
  have "quota_respected empty_db"
    by (simp add: quota_respected_def empty_db_def)
  then have "quota_respected (run rs empty_db)"
    by (rule run_respects)
  then show ?thesis
    by (simp add: quota_respected_def)
qed

theorem quota_never_exceeded_witness:
  "(\<exists>r \<in> set (anonymous_usage (run (replicate 6 (example_env,
        post ''203.0.113.7'' None (Some (message ''record'' ''fpA'' (Some True))))) empty_db)).
      generations_used r = 5 \<and> generations_used r \<le> 5)"
proof -
  let ?rs = "replicate 6 (example_env,
        post ''203.0.113.7'' None (Some (message ''record'' ''fpA'' (Some True))))"
  from stored_usage_row [OF six_records_A]
  obtain r where r: "r \<in> set (anonymous_usage (run ?rs empty_db))" "generations_used r = 5"
    by (auto simp: anonymous_ctx_sel)
  from quota_never_exceeded [of ?rs] r(1) have "generations_used r \<le> 5"
    by blast
  with r show ?thesis by blast
qed

subsection \<open>Counting successful records\<close>

lemma stored_usage_user_db: "stored_usage example_env (user_ctx b) (user_db n) = n"
  by (simp add: stored_usage_def select_user_usage_def user_db_def example_env_def
      single_def used_or_0_def user_ctx_def)

lemma own_row_only_user_db: "own_row_only example_env (user_ctx b) (user_db n)"
  by (simp add: own_row_only_def select_user_usage_def user_db_def user_ctx_def)

lemma serve_record_user:
  "serve example_env
     (post ''203.0.113.7'' (Some ''Bearer token-1'') (Some (message ''record'' ''fpA'' (Some True)))) d
   = record_branch example_env (user_ctx (message ''record'' ''fpA'' (Some True))) d"
  by (rule serve_record [OF method_post resolve_user]) (simp_all add: user_ctx_sel message_sel)

lemma interleaved_user:
  "stored_usage example_env (user_ctx b) (record_twice_interleaved example_env (user_ctx b) empty_db) = 1"
  by (simp add: record_twice_interleaved_def record_usage_def record_write_def stored_usage_def
      select_user_usage_def empty_db_def user_ctx_def single_def used_or_0_def Let_def
      maxGenerations_def AUTHENTICATED_DAILY_LIMIT_def upsert_user_usage_def example_env_def)

text \<open>
  Served one after the other, the record requests of a caller count as they should. For a
  caller whose identity has at most one row for the day and, when anonymous, whose address
  no other fingerprint has used that day, and whose stored usage \<open>p\<close> is at most the cap:
  after \<open>N\<close> record requests with \<^verbatim>\<open>success = true\<close> the stored usage is
  \<open>min(p + N, cap)\<close>.
\<close>

lemma sequential_records_count:
  assumes "http_method rq \<noteq> ''OPTIONS''" and "resolve e rq = Inr c"
    and "action (req c) = Some ''record''" and "success (req c) = Some True"
    and "own_row_only e c d" and "stored_usage e c d \<le> maxGenerations c"
  shows "stored_usage e c (run (replicate N (e, rq)) d)
      = min (stored_usage e c d + int N) (if user c \<noteq> None then 10 else 5)"
proof -
  have sv: "serve e rq d' = record_branch e c d'" for d'
    using assms(1-4) by (rule serve_record)
  have "maxGenerations c = (if user c \<noteq> None then 10 else 5)"
    by (simp add: maxGenerations_def AUTHENTICATED_DAILY_LIMIT_def ANONYMOUS_DAILY_LIMIT_def)
  with stored_after_records [OF sv assms(5,6), of N] show ?thesis
    by simp
qed

text \<open>
  C3. The claim asks that no update is lost when record requests are handled
  concurrently. The record branch reads \<^verbatim>\<open>currentUsage\<close> in one call on the store and
  upserts \<^verbatim>\<open>currentUsage + 1\<close> in a later one. Two record requests of one authenticated
  caller on the empty store, both reading before either writes, leave the row at 1; the
  claim asks for \<open>min(2, 10) + 0 = 2\<close>, which is what the same two requests leave when
  served one after the other.
\<close>

theorem interleaved_records_lose_update:
  "stored_usage example_env (user_ctx (message ''record'' ''fpA'' (Some True))) empty_db = 0
   \<and> stored_usage example_env (user_ctx (message ''record'' ''fpA'' (Some True)))
       (record_twice_interleaved example_env (user_ctx (message ''record'' ''fpA'' (Some True)))
          empty_db) = 1
   \<and> stored_usage example_env (user_ctx (message ''record'' ''fpA'' (Some True)))
       (run (replicate 2 (example_env,
          post ''203.0.113.7'' (Some ''Bearer token-1'')
            (Some (message ''record'' ''fpA'' (Some True))))) empty_db) = 2"
proof -
  let ?c = "user_ctx (message ''record'' ''fpA'' (Some True))"
  let ?rq = "post ''203.0.113.7'' (Some ''Bearer token-1'')
            (Some (message ''record'' ''fpA'' (Some True)))"
  have "stored_usage example_env ?c (run (replicate 2 (example_env, ?rq)) empty_db)
      = min (stored_usage example_env ?c empty_db + int 2) (maxGenerations ?c)"
    by (rule stored_after_records [OF serve_record_user own_row_only_empty])
       (simp add: stored_usage_empty max_user)
  then have "stored_usage example_env ?c (run (replicate 2 (example_env, ?rq)) empty_db) = 2"
    by (simp add: stored_usage_empty max_user)
  then show ?thesis
    by (simp add: stored_usage_empty interleaved_user)
qed

subsection \<open>Two fingerprints on one address\<close>

lemma serve_check:
  "http_method rq \<noteq> ''OPTIONS'' \<Longrightarrow> resolve e rq = Inr c \<Longrightarrow> action (req c) = Some ''check'' \<Longrightarrow>
   serve e rq d = check_branch e c d"
  by (simp add: serve_def dispatch_def)

lemma check_branch_anonymous_db:
  assumes "check_usage example_env (anonymous_ctx a f b) (anonymous_db m n) = u"
  shows "check_branch example_env (anonymous_ctx a f b) (anonymous_db m n) =
     (\<lparr>status = 200,
       body = Check_body \<lparr>canGenerate = (u < 5), generationsUsed = u,
                generationsRemaining = max 0 (5 - u),
                resetTime = ''2026-11-04T00:00:00.000Z'', isAuthenticated = False,
                limitType = ''anonymous''\<rparr>\<rparr>,
      anonymous_db m n, [Select_anonymous_usage, Select_anonymous_usage])"
  using assms
  by (simp add: check_branch_def Let_def max_anonymous anonymous_ctx_sel read_ops_def
      limit_name_def example_env_sel)

text \<open>
  C6, as stated, fails on the code. With the rows of two fingerprints of one address at 3
  each, a check for either fingerprint reports \<^verbatim>\<open>generationsUsed = 3\<close>, not 6, and
  \<^verbatim>\<open>generationsRemaining = 2\<close>, not 0: the check branch takes the maximum of the
  caller's row and the sum of the other rows of the address.
\<close>

theorem shared_ip_check_counterexample:
  "serve example_env (post ''203.0.113.7'' None (Some (message ''check'' ''fpA'' None)))
     (anonymous_db 3 3) =
     (\<lparr>status = 200,
       body = Check_body \<lparr>canGenerate = True, generationsUsed = 3, generationsRemaining = 2,
                resetTime = ''2026-11-04T00:00:00.000Z'', isAuthenticated = False,
                limitType = ''anonymous''\<rparr>\<rparr>,
      anonymous_db 3 3, [Select_anonymous_usage, Select_anonymous_usage])
   \<and> serve example_env (post ''203.0.113.7'' None (Some (message ''check'' ''fpB'' None)))
     (anonymous_db 3 3) =
     (\<lparr>status = 200,
       body = Check_body \<lparr>canGenerate = True, generationsUsed = 3, generationsRemaining = 2,
                resetTime = ''2026-11-04T00:00:00.000Z'', isAuthenticated = False,
                limitType = ''anonymous''\<rparr>\<rparr>,
      anonymous_db 3 3, [Select_anonymous_usage, Select_anonymous_usage])
   \<and> (3::int) \<noteq> 6 \<and> (2::int) \<noteq> 0"
proof -
  have A: "serve example_env (post ''203.0.113.7'' None (Some (message ''check'' ''fpA'' None)))
      (anonymous_db 3 3)
    = check_branch example_env (anonymous_ctx id_A ''fpA'' (message ''check'' ''fpA'' None))
        (anonymous_db 3 3)"
    by (rule serve_check [OF method_post resolve_A]) (simp add: anonymous_ctx_sel message_sel)
  have B: "serve example_env (post ''203.0.113.7'' None (Some (message ''check'' ''fpB'' None)))
      (anonymous_db 3 3)
    = check_branch example_env (anonymous_ctx id_B ''fpB'' (message ''check'' ''fpB'' None))
        (anonymous_db 3 3)"
    by (rule serve_check [OF method_post resolve_B]) (simp add: anonymous_ctx_sel message_sel)
  show ?thesis
    unfolding A B
    by (simp add: check_branch_anonymous_db [OF check_usage_A]
        check_branch_anonymous_db [OF check_usage_B])
qed

text \<open>
  C6, amended. For an anonymous caller whose own row for the day holds 3, on an address
  where exactly one other fingerprint has a row for the day and that row holds 3, a check
  reports \<^verbatim>\<open>generationsUsed = 3\<close>, \<^verbatim>\<open>generationsRemaining = 2\<close> and
  \<^verbatim>\<open>canGenerate = true\<close>. The statement holds for either of the two callers.
\<close>

theorem shared_ip_check:
  assumes "http_method rq \<noteq> ''OPTIONS''" and "resolve e rq = Inr c"
    and "action (req c) = Some ''check''" and "user c = None"
    and "select_anonymous_usage (anonymousId c) (today e) d = [own]"
    and "generations_used own = 3"
    and "filter (\<lambda>r. ip_address r = clientIP c \<and> date r = today e
                      \<and> anonymous_id r \<noteq> anonymousId c) (anonymous_usage d) = [other]"
    and "generations_used other = 3"
  shows "serve e rq d =
          (\<lparr>status = 200,
            body = Check_body
              \<lparr>canGenerate = True, generationsUsed = 3, generationsRemaining = 2,
               resetTime = midnight e, isAuthenticated = False, limitType = ''anonymous''\<rparr>\<rparr>,
           d, [Select_anonymous_usage, Select_anonymous_usage])"
proof -
  have "check_usage e c d = 3"
    using assms(4-8)
    by (simp add: check_usage_def single_def used_or_0_def reduce_used_def)
  with assms(4) have "check_branch e c d =
          (\<lparr>status = 200,
            body = Check_body
              \<lparr>canGenerate = True, generationsUsed = 3, generationsRemaining = 2,
               resetTime = midnight e, isAuthenticated = False, limitType = ''anonymous''\<rparr>\<rparr>,
           d, [Select_anonymous_usage, Select_anonymous_usage])"
    by (simp add: check_branch_def Let_def maxGenerations_def ANONYMOUS_DAILY_LIMIT_def
        read_ops_def limit_name_def)
  with serve_check [OF assms(1-3)] show ?thesis
    by simp
qed

theorem shared_ip_check_witness:
  "serve example_env (post ''203.0.113.7'' None (Some (message ''check'' ''fpB'' None)))
     (anonymous_db 3 3) =
     (\<lparr>status = 200,
       body = Check_body \<lparr>canGenerate = True, generationsUsed = 3, generationsRemaining = 2,
                resetTime = ''2026-11-04T00:00:00.000Z'', isAuthenticated = False,
                limitType = ''anonymous''\<rparr>\<rparr>,
      anonymous_db 3 3, [Select_anonymous_usage, Select_anonymous_usage])"
proof -
  let ?c = "anonymous_ctx id_B ''fpB'' (message ''check'' ''fpB'' None)"
  have a: "action (req ?c) = Some ''check''" and u: "user ?c = None"
    by (simp_all add: anonymous_ctx_sel message_sel)
  have own: "select_anonymous_usage (anonymousId ?c) (today example_env) (anonymous_db 3 3)
      = [anonymous_row id_B ''fpB'' 3]"
    using id_A_neq_B
    by (simp add: select_anonymous_usage_def anonymous_db_def anonymous_ctx_def example_env_sel
        anonymous_row_def)
  have other: "filter (\<lambda>r. ip_address r = clientIP ?c \<and> date r = today example_env
                      \<and> anonymous_id r \<noteq> anonymousId ?c) (anonymous_usage (anonymous_db 3 3))
      = [anonymous_row id_A ''fpA'' 3]"
    using id_A_neq_B
    by (simp add: anonymous_db_def anonymous_ctx_def example_env_sel anonymous_row_def)
  have g: "generations_used (anonymous_row id_B ''fpB'' 3) = 3"
    "generations_used (anonymous_row id_A ''fpA'' 3) = 3"
    by (simp_all add: anonymous_row_def)
  from shared_ip_check [OF method_post resolve_B a u own g(1) other g(2)] show ?thesis
    by (simp add: example_env_sel)
qed

subsection \<open>The anonymous id\<close>

lemma colon_not_alnum: "\<not> is_alnum CHR '':''"
  by (simp add: is_alnum_def)

lemma sanitized_no_colon:
  assumes "sanitizeFingerprint fp = Inr s"
  shows "CHR '':'' \<notin> set s"
proof -
  from assms obtain g where "s = take MAX_FINGERPRINT_LENGTH (filter is_alnum g)"
    by (auto simp: sanitizeFingerprint_def split: option.splits if_splits)
  then have "set s \<subseteq> set (filter is_alnum g)"
    by (simp only: set_take_subset)
  with colon_not_alnum show ?thesis by auto
qed

lemma combined_inj:
  assumes "CHR '':'' \<notin> set s" "CHR '':'' \<notin> set s'" "combined ip s = combined ip' s'"
  shows "ip = ip' \<and> s = s'"
proof -
  have t: "takeWhile (\<lambda>c. c \<noteq> CHR '':'') (rev (combined a b)) = rev b" if "CHR '':'' \<notin> set b" for a b
    using that by (auto simp add: combined_def takeWhile_tail)
  from assms(3) have "takeWhile (\<lambda>c. c \<noteq> CHR '':'') (rev (combined ip s))
      = takeWhile (\<lambda>c. c \<noteq> CHR '':'') (rev (combined ip' s'))"
    by simp
  with t [OF assms(1)] t [OF assms(2)] have "s = s'"
    by simp
  with assms(3) show ?thesis
    by (simp add: combined_def)
qed

lemma hex_digit_inj: "m < 16 \<Longrightarrow> n < 16 \<Longrightarrow> hex_digit m = hex_digit n \<Longrightarrow> m = n"
proof -
  assume a: "m < 16" "n < 16" "hex_digit m = hex_digit n"
  have d: "distinct ''0123456789abcdef''"
    by simp
  from a have "''0123456789abcdef'' ! m = ''0123456789abcdef'' ! n"
    by (simp add: hex_digit_def)
  with d a(1,2) show "m = n"
    by (simp add: nth_eq_iff_index_eq)
qed

lemma hex_byte_inj:
  fixes a b :: byte
  assumes "hex_digit (unat a div 16) = hex_digit (unat b div 16)"
    and "hex_digit (unat a mod 16) = hex_digit (unat b mod 16)"
  shows "a = b"
proof -
  have la: "unat a < 256" and lb: "unat b < 256"
    using unsigned_less [of a] unsigned_less [of b] by simp_all
  then have "unat a div 16 < 16" "unat b div 16 < 16"
    by simp_all
  with assms(1) have q: "unat a div 16 = unat b div 16"
    by (rule_tac hex_digit_inj)
  have "unat a mod 16 = unat b mod 16"
    by (rule hex_digit_inj [OF _ _ assms(2)]) simp_all
  with q have "unat a = unat b"
    by (metis div_mult_mod_eq)
  then show ?thesis
    by (simp add: word_unat_eq_iff)
qed

lemma encodeHex_inj: "encodeHex xs = encodeHex ys \<Longrightarrow> xs = ys"
proof (induction xs arbitrary: ys)
  case Nil
  then show ?case by (cases ys) (simp_all add: encodeHex_def)
next
  case (Cons x xs)
  then obtain y ys' where y: "ys = y # ys'"
    by (cases ys) (simp_all add: encodeHex_def)
  with Cons.prems have "x = y" "encodeHex xs = encodeHex ys'"
    by (auto simp add: encodeHex_def intro: hex_byte_inj)
  with Cons.IH y show ?case by simp
qed

lemma byte_of_nat_inj:
  "m < 256 \<Longrightarrow> n < 256 \<Longrightarrow> (of_nat m :: byte) = of_nat n \<Longrightarrow> m = n"
  by (simp add: word_of_nat_eq_iff take_bit_nat_eq_self)


lemma lead_byte_bound: "n < 256 \<Longrightarrow> 192 + n div 64 < (256::nat)"
  by simp

lemma tail_byte_bound: "128 + n mod 64 < (256::nat)"
  by simp

lemma div_mod_64_eq: "(m::nat) div 64 = n div 64 \<Longrightarrow> m mod 64 = n mod 64 \<Longrightarrow> m = n"
  by (metis div_mult_mod_eq)

lemma utf8_small: "of_char c < (128::nat) \<Longrightarrow> utf8_of_char c = [of_nat (of_char c)]"
  by (simp add: utf8_of_char_def Let_def)

lemma utf8_large:
  "128 \<le> (of_char c::nat) \<Longrightarrow>
   utf8_of_char c = [of_nat (192 + of_char c div 64), of_nat (128 + of_char c mod 64)]"
  by (simp add: utf8_of_char_def Let_def)

lemma utf8_prefix_inj:
  assumes "utf8_of_char c @ xs = utf8_of_char c' @ ys"
  shows "c = c' \<and> xs = ys"
proof -
  let ?m = "of_char c :: nat" and ?n = "of_char c' :: nat"
  have lm: "?m < 256" and ln: "?n < 256"
    by simp_all
  have dm: "192 + ?m div 64 < 256" and dn: "192 + ?n div 64 < 256"
    by (rule lead_byte_bound [OF lm], rule lead_byte_bound [OF ln])
  have rm: "128 + ?m mod 64 < 256" and rn: "128 + ?n mod 64 < 256"
    by (rule tail_byte_bound)+
  consider (ss) "?m < 128" "?n < 128" | (sl) "?m < 128" "128 \<le> ?n"
    | (ls) "128 \<le> ?m" "?n < 128" | (ll) "128 \<le> ?m" "128 \<le> ?n"
    by linarith
  then show ?thesis
  proof cases
    case ss
    from assms have "[of_nat ?m :: byte] @ xs = [of_nat ?n] @ ys"
      by (simp only: utf8_small [OF ss(1)] utf8_small [OF ss(2)])
    then have "(of_nat ?m :: byte) = of_nat ?n" "xs = ys"
      by (simp_all only: append_Cons append_Nil list.inject)
    with byte_of_nat_inj [OF lm ln] show ?thesis by simp
  next
    case sl
    from assms have "[of_nat ?m :: byte] @ xs
        = [of_nat (192 + ?n div 64), of_nat (128 + ?n mod 64)] @ ys"
      by (simp only: utf8_small [OF sl(1)] utf8_large [OF sl(2)])
    then have "(of_nat ?m :: byte) = of_nat (192 + ?n div 64)"
      by (simp only: append_Cons append_Nil list.inject)
    with byte_of_nat_inj [OF lm dn] have "?m = 192 + ?n div 64" by blast
    with sl show ?thesis by linarith
  next
    case ls
    from assms have "[of_nat (192 + ?m div 64), of_nat (128 + ?m mod 64)] @ xs
        = [of_nat ?n :: byte] @ ys"
      by (simp only: utf8_large [OF ls(1)] utf8_small [OF ls(2)])
    then have "(of_nat (192 + ?m div 64) :: byte) = of_nat ?n"
      by (simp only: append_Cons append_Nil list.inject)
    with byte_of_nat_inj [OF dm ln] have "192 + ?m div 64 = ?n" by blast
    with ls show ?thesis by linarith
  next
    case ll
    from assms have "[of_nat (192 + ?m div 64), of_nat (128 + ?m mod 64) :: byte] @ xs
        = [of_nat (192 + ?n div 64), of_nat (128 + ?n mod 64)] @ ys"
      by (simp only: utf8_large [OF ll(1)] utf8_large [OF ll(2)])
    then have e: "(of_nat (192 + ?m div 64) :: byte) = of_nat (192 + ?n div 64)"
      "(of_nat (128 + ?m mod 64) :: byte) = of_nat (128 + ?n mod 64)" "xs = ys"
      by (simp_all only: append_Cons append_Nil list.inject)
    from byte_of_nat_inj [OF dm dn e(1)]
    have q: "?m div 64 = ?n div 64" by simp
    from byte_of_nat_inj [OF rm rn e(2)]
    have "?m mod 64 = ?n mod 64" by simp
    with q have "?m = ?n"
      by (rule div_mod_64_eq)
    with e(3) show ?thesis by simp
  qed
qed

lemma TextEncoder_encode_inj: "TextEncoder_encode s = TextEncoder_encode t \<Longrightarrow> s = t"
proof (induction s arbitrary: t)
  case Nil
  have "utf8_of_char c \<noteq> []" for c
    by (simp add: utf8_of_char_def Let_def)
  with Nil show ?case
    by (cases t) (simp_all add: TextEncoder_encode_def)
next
  case (Cons c s)
  have ne: "utf8_of_char c \<noteq> []" for c
    by (simp add: utf8_of_char_def Let_def)
  from Cons.prems ne obtain c' t' where t: "t = c' # t'"
    by (cases t) (simp_all add: TextEncoder_encode_def)
  with Cons.prems have "utf8_of_char c @ TextEncoder_encode s = utf8_of_char c' @ TextEncoder_encode t'"
    by (simp add: TextEncoder_encode_def)
  then have "c = c'" "TextEncoder_encode s = TextEncoder_encode t'"
    using utf8_prefix_inj by blast+
  with Cons.IH t show ?case by simp
qed


lemma createSecureAnonymousId_ok:
  "sanitizeFingerprint fp = Inr s \<Longrightarrow> createSecureAnonymousId ip fp = Inr (anonymous_id_of ip s)"
  by (simp add: createSecureAnonymousId_def anonymous_id_of_def)

lemma sanitize_dashed: "sanitizeFingerprint (Some ''fp-A'') = Inr ''fpA''"
  by (simp add: sanitizeFingerprint_def MAX_FINGERPRINT_LENGTH_def is_alnum_def)

lemma sanitize_plain: "sanitizeFingerprint (Some ''fpA'') = Inr ''fpA''"
  by (simp add: sanitizeFingerprint_def MAX_FINGERPRINT_LENGTH_def is_alnum_def)

lemma sanitize_fpB: "sanitizeFingerprint (Some ''fpB'') = Inr ''fpB''"
  by (simp add: sanitizeFingerprint_def MAX_FINGERPRINT_LENGTH_def is_alnum_def)

text \<open>
  C7, as stated, fails on the code: the id does not differ for every change of the
  fingerprint. The fingerprints \<^verbatim>\<open>fp-A\<close> and \<^verbatim>\<open>fpA\<close> are both accepted, both are
  sanitized to \<^verbatim>\<open>fpA\<close>, and at one address they get the same id.
\<close>

theorem anonymous_id_counterexample:
  "sanitizeFingerprint (Some ''fp-A'') = Inr ''fpA''
   \<and> sanitizeFingerprint (Some ''fpA'') = Inr ''fpA''
   \<and> ''fp-A'' \<noteq> ''fpA''
   \<and> createSecureAnonymousId ''203.0.113.7'' (Some ''fp-A'')
       = createSecureAnonymousId ''203.0.113.7'' (Some ''fpA'')"
  by (simp add: sanitize_dashed sanitize_plain createSecureAnonymousId_ok [OF sanitize_dashed]
      createSecureAnonymousId_ok [OF sanitize_plain])

text \<open>
  C7, amended. For every address and every fingerprint that sanitization accepts, the id
  is the hexadecimal encoding of the SHA-256 digest of the address, a colon and the
  sanitized fingerprint. It is a function of the address and the sanitized fingerprint
  alone; two ids are equal exactly when the two digests are, and the two digested byte
  strings are equal exactly when the addresses and the sanitized fingerprints are. So a
  change of the address or of the sanitized fingerprint changes the digested string, and
  the id with it unless SHA-256 collides.
\<close>

theorem anonymous_id_contract:
  assumes "sanitizeFingerprint fp = Inr s" and "sanitizeFingerprint fp' = Inr s'"
  shows "createSecureAnonymousId ip fp
        = Inr (encodeHex (sha256 (TextEncoder_encode (ip @ '':'' @ s))))
    \<and> ((createSecureAnonymousId ip fp = createSecureAnonymousId ip' fp')
        = (sha256 (TextEncoder_encode (ip @ '':'' @ s))
            = sha256 (TextEncoder_encode (ip' @ '':'' @ s'))))
    \<and> ((TextEncoder_encode (ip @ '':'' @ s) = TextEncoder_encode (ip' @ '':'' @ s'))
        = (ip = ip' \<and> s = s'))"
proof -
  have 1: "createSecureAnonymousId ip fp
        = Inr (encodeHex (sha256 (TextEncoder_encode (ip @ '':'' @ s))))"
    and 4: "createSecureAnonymousId ip' fp'
        = Inr (encodeHex (sha256 (TextEncoder_encode (ip' @ '':'' @ s'))))"
    using assms by (simp_all add: createSecureAnonymousId_def combined_def)
  have 2: "(createSecureAnonymousId ip fp = createSecureAnonymousId ip' fp')
        = (sha256 (TextEncoder_encode (ip @ '':'' @ s))
            = sha256 (TextEncoder_encode (ip' @ '':'' @ s')))"
    unfolding 1 4 using encodeHex_inj by auto
  have 3: "(TextEncoder_encode (ip @ '':'' @ s) = TextEncoder_encode (ip' @ '':'' @ s'))
        = (ip = ip' \<and> s = s')"
  proof
    assume "TextEncoder_encode (ip @ '':'' @ s) = TextEncoder_encode (ip' @ '':'' @ s')"
    then have "combined ip s = combined ip' s'"
      unfolding combined_def by (rule TextEncoder_encode_inj)
    with sanitized_no_colon [OF assms(1)] sanitized_no_colon [OF assms(2)]
    show "ip = ip' \<and> s = s'"
      by (rule combined_inj)
  next
    assume "ip = ip' \<and> s = s'"
    then show "TextEncoder_encode (ip @ '':'' @ s) = TextEncoder_encode (ip' @ '':'' @ s')"
      by simp
  qed
  from 1 2 3 show ?thesis by blast
qed

theorem anonymous_id_contract_witness:
  "createSecureAnonymousId ''203.0.113.7'' (Some ''fp-A'') = Inr id_A
   \<and> createSecureAnonymousId ''203.0.113.7'' (Some ''fpB'') = Inr id_B
   \<and> id_A \<noteq> id_B
   \<and> TextEncoder_encode (''203.0.113.7'' @ '':'' @ ''fpA'')
       \<noteq> TextEncoder_encode (''203.0.113.7'' @ '':'' @ ''fpB'')"
proof -
  note t = anonymous_id_contract [OF sanitize_dashed sanitize_fpB,
      of "''203.0.113.7''" "''203.0.113.7''"]
  from t have "createSecureAnonymousId ''203.0.113.7'' (Some ''fp-A'')
      = Inr (anonymous_id_of ''203.0.113.7'' ''fpA'')"
    by (simp add: anonymous_id_of_def combined_def)
  then have a: "createSecureAnonymousId ''203.0.113.7'' (Some ''fp-A'') = Inr id_A"
    by (simp only: anonymous_id_A)
  have b: "createSecureAnonymousId ''203.0.113.7'' (Some ''fpB'') = Inr id_B"
    by (simp only: createSecureAnonymousId_ok [OF sanitize_fpB] anonymous_id_B)
  from t have "TextEncoder_encode (''203.0.113.7'' @ '':'' @ ''fpA'')
       \<noteq> TextEncoder_encode (''203.0.113.7'' @ '':'' @ ''fpB'')"
    by simp
  with a b id_A_neq_B show ?thesis by blast
qed

end
